theory Spec2Isabelle
  imports Complex_Main "HOL-Library.Word"
begin

section \<open>Python strings\<close>

text \<open>
  A Python \<open>str\<close> is a sequence of Unicode code points; the Korean literals of the
  source do not fit the 8-bit \<open>char\<close>, so a string is a list of code points and
  \<open>length\<close> counts what Python's \<open>len\<close> counts. The literals below were read off
  the source files code point by code point (all are precomposed Hangul syllables).
\<close>

type_synonym ustr = "nat list"

text \<open>The code points for which \<open>str.isspace\<close> holds; \<open>str.split()\<close> and
  \<open>str.strip()\<close> without arguments use the same set.\<close>

definition is_space :: "nat \<Rightarrow> bool" where
  "is_space c \<longleftrightarrow>
     (9 \<le> c \<and> c \<le> 13) \<or> (28 \<le> c \<and> c \<le> 32) \<or> c = 133 \<or> c = 160 \<or> c = 5760 \<or>
     (8192 \<le> c \<and> c \<le> 8202) \<or> c = 8232 \<or> c = 8233 \<or> c = 8239 \<or> c = 8287 \<or> c = 12288"

definition SP :: nat where
  "SP = 32"

definition strip :: "ustr \<Rightarrow> ustr" where
  "strip s = rev (dropWhile is_space (rev (dropWhile is_space s)))"

text \<open>\<open>s.split()\<close>: scan left to right, \<open>w\<close> is the word being collected.\<close>

fun split_scan :: "ustr \<Rightarrow> ustr \<Rightarrow> ustr list" where
  "split_scan [] w = (if w = [] then [] else [w])"
| "split_scan (c # cs) w =
     (if is_space c then (if w = [] then split_scan cs [] else w # split_scan cs [])
      else split_scan cs (w @ [c]))"

definition split_ws :: "ustr \<Rightarrow> ustr list" where
  "split_ws s = split_scan s []"

text \<open>\<open>sep.join(xs)\<close>\<close>

fun join :: "ustr \<Rightarrow> ustr list \<Rightarrow> ustr" where
  "join sep [] = []"
| "join sep [x] = x"
| "join sep (x # y # ys) = x @ sep @ join sep (y # ys)"

definition startswith :: "ustr \<Rightarrow> ustr \<Rightarrow> bool" where
  "startswith s p \<longleftrightarrow> take (length p) s = p"

definition endswith :: "ustr \<Rightarrow> ustr \<Rightarrow> bool" where
  "endswith s e \<longleftrightarrow> length e \<le> length s \<and> drop (length s - length e) s = e"

text \<open>\<open>sub in s\<close>\<close>

fun contains :: "ustr \<Rightarrow> ustr \<Rightarrow> bool" where
  "contains [] sub = (sub = [])"
| "contains (c # cs) sub = (startswith (c # cs) sub \<or> contains cs sub)"

text \<open>\<open>s.replace(old, new)\<close>: every non-overlapping occurrence, leftmost first. With
  an empty \<open>old\<close> Python puts \<open>new\<close> before every code point and at the end.\<close>

function replace :: "ustr \<Rightarrow> ustr \<Rightarrow> ustr \<Rightarrow> ustr" where
  "replace s old new =
     (if old = [] then new @ concat (map (\<lambda>c. c # new) s)
      else if s = [] then []
      else if startswith s old then new @ replace (drop (length old) s) old new
      else hd s # replace (tl s) old new)"
  by pat_completeness auto
termination
  by (relation "measure (\<lambda>(s, old, new). length s)") auto

declare replace.simps [simp del]

section \<open>Sentence segmentation (buffer.py)\<close>

text \<open>\<open>self.sentence_endings\<close>, in the order of the set literal. A Python set has no
  repetitions and no fixed iteration order; lemma \<open>endings_loop_iff\<close> below shows that
  the loop over it gives the same answer for every order and repetition.\<close>

definition sentence_endings :: "ustr list" where
  "sentence_endings =
    [[45796], [45768, 45796], [49845, 45768, 45796], [54633, 45768, 45796],
     [51077, 45768, 45796], [46121, 45768, 45796], [50612, 50836], [50500, 50836],
     [50640, 50836], [50696, 50836], [50612], [50500], [51648], [51424], [44144, 46304],
     [44152], [45716, 45936], [45348], [44400], [44396, 45208], [46976, 45796], [47156],
     [47560], [51088], [46972], [44620], [45768], [45208], [44032], [45264], [45712, 45264],
     [45716, 44032], [51012, 44620], [51012, 44620, 50836], [49464, 50836],
     [49901, 49884, 50724], [46972], [50612, 46972], [44144, 46972], [51088], [49884, 45796],
     [44396, 45208], [44400, 50836], [45348, 50836], [45716, 44396, 45208],
     [45716, 44400, 50836], [51020], [49844], [49900], [51076]]"

text \<open>The continuation particles tested against the next word.\<close>

definition particles :: "ustr list" where
  "particles =
    [[45716], [46020], [47564], [44620, 51648], [48512, 53552], [46972, 44256], [44256],
     [47728], [47732, 49436]]"

text \<open>The three punctuation marks \<open>. ! ?\<close>\<close>

definition punctuation :: "ustr list" where
  "punctuation = [[46], [33], [63]]"

text \<open>
  The inner \<open>for ending in self.sentence_endings\<close> loop with its two \<open>break\<close>s.
  \<open>rest\<close> is \<open>words[i+1:]\<close>: \<open>i + 1 < len(words)\<close> is \<open>rest \<noteq> []\<close> and
  \<open>words[i+1]\<close> is its head.
\<close>

fun endings_loop :: "ustr list \<Rightarrow> ustr \<Rightarrow> ustr list \<Rightarrow> bool" where
  "endings_loop [] word rest = False"
| "endings_loop (ending # more) word rest =
     (if endswith word ending then
        (case rest of
           next_word # _ \<Rightarrow>
             if \<not> list_ex (startswith next_word) particles then True
             else endings_loop more word rest
         | [] \<Rightarrow> True)
      else endings_loop more word rest)"

definition is_sentence_end :: "ustr \<Rightarrow> ustr list \<Rightarrow> bool" where
  "is_sentence_end word rest =
     (if list_ex (endswith word) punctuation then True
      else endings_loop sentence_endings word rest)"

text \<open>The \<open>for i, word in enumerate(words)\<close> loop: the words not yet visited, the
  sentences appended so far and \<open>current\<close>.\<close>

fun split_loop :: "ustr list \<Rightarrow> ustr list \<Rightarrow> ustr \<Rightarrow> ustr list \<times> ustr" where
  "split_loop [] sentences current = (sentences, current)"
| "split_loop (word # rest) sentences current =
     (let current1 = current @ word in
      if is_sentence_end word rest then split_loop rest (sentences @ [strip current1]) []
      else if current1 \<noteq> [] then split_loop rest sentences (current1 @ [SP])
      else split_loop rest sentences current1)"

definition split_into_sentences :: "ustr \<Rightarrow> ustr list \<times> ustr" where
  "split_into_sentences text =
     (let (sentences, current) = split_loop (split_ws text) [] [];
          remaining = (if current \<noteq> [] then strip current else [])
      in (sentences, remaining))"

text \<open>Helper predicates of the proofs: a whitespace-free, non-empty token, and the
  shape of \<open>current\<close> during the loop (empty, or ending in the appended space).\<close>

definition is_word :: "ustr \<Rightarrow> bool" where
  "is_word w \<longleftrightarrow> w \<noteq> [] \<and> (\<forall>c \<in> set w. \<not> is_space c)"

definition open_current :: "ustr \<Rightarrow> bool" where
  "open_current cur \<longleftrightarrow> cur = [] \<or> is_space (last cur)"

section \<open>Text correction (text_corrector.py)\<close>

text \<open>The two dictionaries, as association lists in insertion order (the order in
  which \<open>.items()\<close> yields them).\<close>

definition phonetic_corrections :: "(ustr \<times> ustr) list" where
  "phonetic_corrections =
    [([49457, 49900], [49457, 49888]), ([49457, 51064], [49457, 49888]),
     ([49457, 49885], [49457, 49888]), ([44048, 51221], [44036, 51613]),
     ([44036, 51221], [44036, 51613]), ([44036, 51216], [44036, 51613]),
     ([44396, 51312], [44396, 51452]), ([44397, 51452], [44396, 51452]),
     ([54805, 51116], [54805, 51228]), ([54788, 51228], [54805, 51228]),
     ([54805, 51116, 45784], [54805, 51228, 45784]), ([51088, 48120], [51088, 47588]),
     ([51088, 48176], [51088, 47588]), ([50892, 46300], [50752, 46300]),
     ([50772, 46300], [50752, 46300]), ([50896, 46300], [50752, 46300]),
     ([49457, 52272], [49457, 52268]), ([49373, 49328], [49457, 52268]),
     ([49457, 52264], [49457, 52268]), ([49888, 44288], [49888, 44428]),
     ([49888, 50896], [49888, 44428]), ([52769, 48373], [52629, 48373]),
     ([52629, 48372], [52629, 48373]), ([52629, 48380], [52629, 48373, 51012]),
     ([52832, 47168], [52840, 47168]), ([54801, 44172], [54924, 44060]),
     ([54924, 44228], [54924, 44060]), ([49549, 51228], [49549, 51396]),
     ([49549, 51116], [49549, 51396]), ([48120, 46316], [48127, 51020]),
     ([48120, 46300, 48072], [48127, 51020, 51012]), ([48120, 46308], [48127, 51020]),
     ([44032, 52824], [44057, 51060]), ([48148, 46308], [48155, 51012]),
     ([48148, 51600], [48155, 51012]), ([48148, 45796], [48155, 45796]),
     ([51060, 49836], [51080, 51012]), ([51060, 51600], [51080, 51012]),
     ([44032, 51600], [44054, 51012]), ([44032, 51656], [44054, 51012]),
     ([54616, 45212, 45784], [54616, 45208, 45784]),
     ([54620, 45208, 45784], [54616, 45208, 45784]),
     ([54616, 45576, 45784], [54616, 45208, 45784]),
     ([54616, 45208, 45784, 44172, 49436], [54616, 45208, 45784, 44760, 49436]),
     ([54616, 45208, 45784, 50640, 49436], [54616, 45208, 45784, 44760, 49436]),
     ([47568, 49844], [47568, 50432]), ([47568, 50488], [47568, 50432]),
     ([49324, 46993, 54620, 45768, 45796], [49324, 46993, 54633, 45768, 45796]),
     ([44536, 47016], [44536, 47100])]"

definition text_fixes :: "(ustr \<times> ustr) list" where
  "text_fixes =
    [([44368, 54924, 32, 44049, 45768, 45796], [44368, 54924, 50640, 32, 44049, 45768, 45796]),
     ([44368, 54924, 32, 50772, 49845, 45768, 45796],
      [44368, 54924, 50640, 32, 50772, 49845, 45768, 45796]),
     ([51200, 32, 49373, 44033], [51200, 45716, 32, 49373, 44033]),
     ([50864, 47532, 32, 54616, 45208, 45784], [50864, 47532, 51032, 32, 54616, 45208, 45784]),
     ([50864, 47532, 32, 44396, 51452], [50864, 47532, 51032, 32, 44396, 51452]),
     ([50696, 49688, 32, 44536, 47532, 49828, 46020, 32, 51060, 47492, 51004, 47196],
      [50696, 49688, 32, 44536, 47532, 49828, 46020, 51032, 32, 51060, 47492, 51004, 47196]),
     ([47568, 50432, 32, 46300, 47532, 44192, 49845, 45768, 45796],
      [47568, 50432, 46300, 47532, 44192, 49845, 45768, 45796]),
     ([44036, 51613, 32, 46300, 47549, 45768, 45796], [44036, 51613, 46300, 47549, 45768, 45796]),
     ([52629, 48373, 32, 48155, 51012], [52629, 48373, 51012, 32, 48155, 51012]),
     ([49457, 49888, 32, 53685, 54644], [49457, 49888, 51012, 32, 53685, 54644]),
     ([44048, 49324, 32, 46300, 47549, 45768, 45796], [44048, 49324, 46300, 47549, 45768, 45796]),
     ([50696, 49688, 44536, 47532, 49828, 46020], [50696, 49688, 32, 44536, 47532, 49828, 46020])]"

text \<open>The subject markers and the verb endings of the last block of \<open>fix_text\<close>.\<close>

definition subjects :: "ustr list" where
  "subjects =
    [[51200], [50864, 47532], [44536], [51060], [50668, 47084, 48516], [54805, 51228],
     [51088, 47588]]"

definition verbs :: "ustr list" where
  "verbs =
    [[54633, 45768, 45796], [51077, 45768, 45796], [46300, 47549, 45768, 45796],
     [46121, 45768, 45796]]"

text \<open>One \<open>for wrong, correct in d.items()\<close> loop of \<open>fix_text\<close>.\<close>

fun apply_corrections :: "(ustr \<times> ustr) list \<Rightarrow> ustr \<Rightarrow> ustr" where
  "apply_corrections [] text = text"
| "apply_corrections ((wrong, correct) # more) text =
     apply_corrections more (if contains text wrong then replace text wrong correct else text)"

text \<open>The block "special case" of \<open>fix_text\<close>.\<close>

definition special_case :: "ustr \<Rightarrow> ustr" where
  "special_case text =
     (if text = [44536, 47000, 49436, 44032] \<or> text = [44536, 47000, 49436, 32, 44032]
      then [44536, 47000, 49436, 32, 50864, 47532, 44032] else text)"

text \<open>The last block of \<open>fix_text\<close>: a short sentence with a verb ending and no
  subject marker gets a subject taken from the context.\<close>

definition restore_subject :: "ustr \<Rightarrow> ustr \<Rightarrow> ustr" where
  "restore_subject text ctx =
     (if \<not> list_ex (contains text) subjects then
        (if length text < 15 \<and> list_ex (contains text) verbs then
           (if ctx \<noteq> [] \<and> (contains ctx [51200, 45716] \<or> contains ctx [51200, 44032])
            then [51200, 45716, 32] @ text
            else if ctx \<noteq> [] \<and> contains ctx [50864, 47532]
            then [50864, 47532, 45716, 32] @ text
            else text)
         else text)
      else text)"

text \<open>\<open>TextCorrector.fix_text(text, context, room_id)\<close>: trim, the two correction
  loops, the special case, the subject block. \<open>room_id\<close> only selects whether log
  lines are written and is left out.\<close>

definition fix_text :: "ustr \<Rightarrow> ustr \<Rightarrow> ustr" where
  "fix_text text ctx =
     restore_subject
       (special_case
         (apply_corrections text_fixes (apply_corrections phonetic_corrections (strip text))))
       ctx"

section \<open>The transcript buffer (buffer.py)\<close>

text \<open>
  A \<open>threading.Timer\<close> object: its interval and whether it is still pending
  (\<open>Started\<close>), was cancelled, or has fired. The buffer keeps every timer it ever
  created in \<open>timers\<close> (the store of timer objects, addressed by position);
  \<open>self.timer\<close> is a reference into that store or \<open>None\<close>.
\<close>

datatype timer_status = Started | Cancelled | Fired

record timer_obj =
  interval :: real
  status :: timer_status

text \<open>The dictionary returned by a flush; its key \<open>'context'\<close> is the field
  \<open>context_hint\<close>.\<close>

record batch =
  korean_processed :: ustr
  context_hint :: ustr

text \<open>The fields of \<open>TranscriptBuffer\<close>. The callback is taken to be registered (the
  constructor requires it), so a batch produced by a timer flush is a batch delivered.\<close>

record transcript_buffer =
  current_sentences :: "ustr list"
  partial_text :: ustr
  context_history :: "ustr list"
  timer :: "nat option"
  timers :: "timer_obj list"
  TARGET_SENTENCES :: int
  MAX_SENTENCES :: int
  PARTIAL_TIMEOUT :: real
  SENTENCE_TIMEOUT :: real

text \<open>\<open>TranscriptBuffer.__init__\<close> with the values of config.py.\<close>

definition new_buffer :: transcript_buffer where
  "new_buffer =
     \<lparr>current_sentences = [], partial_text = [], context_history = [], timer = None,
      timers = [], TARGET_SENTENCES = 4, MAX_SENTENCES = 5, PARTIAL_TIMEOUT = 2,
      SENTENCE_TIMEOUT = 4\<rparr>"

text \<open>\<open>Timer.cancel()\<close>: stops a pending timer, does nothing to one that has fired.\<close>

definition cancel :: "nat \<Rightarrow> timer_obj list \<Rightarrow> timer_obj list" where
  "cancel i ts =
     (if i < length ts \<and> status (ts ! i) = Started then ts[i := (ts ! i)\<lparr>status := Cancelled\<rparr>]
      else ts)"

text \<open>\<open>self.timer = Timer(t, self._timeout_flush); self.timer.start()\<close>\<close>

definition start_timer :: "real \<Rightarrow> transcript_buffer \<Rightarrow> transcript_buffer" where
  "start_timer t self =
     self\<lparr>timers := timers self @ [\<lparr>interval = t, status = Started\<rparr>],
          timer := Some (length (timers self))\<rparr>"

text \<open>\<open>context_history[-3:]\<close>\<close>

definition last3 :: "'a list \<Rightarrow> 'a list" where
  "last3 xs = drop (length xs - 3) xs"

text \<open>The list joined by a flush: the complete sentences, then the partial text if
  there is one.\<close>

definition sentences_to_process :: "transcript_buffer \<Rightarrow> ustr list" where
  "sentences_to_process self =
     (if partial_text self \<noteq> [] then current_sentences self @ [partial_text self]
      else current_sentences self)"

text \<open>\<open>_process_sentences\<close>: the flush.\<close>

definition process_sentences :: "transcript_buffer \<Rightarrow> batch option \<times> transcript_buffer" where
  "process_sentences self =
     (if current_sentences self = [] \<and> partial_text self = [] then (None, self)
      else
        let full_text = join [SP] (sentences_to_process self);
            self1 = (if partial_text self \<noteq> [] then self\<lparr>partial_text := []\<rparr> else self);
            ctx = (if context_history self1 \<noteq> [] then join [SP] (last3 (context_history self1))
                   else []);
            processed_text = fix_text full_text ctx;
            history = context_history self1 @ [processed_text];
            history' = (if length history > 5 then tl history else history)
        in (Some \<lparr>korean_processed = processed_text, context_hint = ctx\<rparr>,
            self1\<lparr>context_history := history', current_sentences := []\<rparr>))"

text \<open>\<open>_timeout_flush\<close>: the result is the batch handed to the callback, if any.\<close>

definition timeout_flush :: "transcript_buffer \<Rightarrow> batch option \<times> transcript_buffer" where
  "timeout_flush self = process_sentences self"

text \<open>The blocks of \<open>add_text\<close>, in the order of the source: cancel the old timer;
  join with the partial text, segment, store sentences and remainder; decide; arm.\<close>

definition cancel_timer :: "transcript_buffer \<Rightarrow> transcript_buffer" where
  "cancel_timer self =
     (case timer self of
        Some t \<Rightarrow> self\<lparr>timers := cancel t (timers self), timer := None\<rparr>
      | None \<Rightarrow> self)"

definition combined_text :: "transcript_buffer \<Rightarrow> ustr \<Rightarrow> ustr" where
  "combined_text self text =
     (if partial_text self \<noteq> [] then partial_text self @ [SP] @ text else text)"

definition accumulate :: "transcript_buffer \<Rightarrow> ustr \<Rightarrow> transcript_buffer" where
  "accumulate self text =
     (let text' = combined_text self text;
          self1 = (if partial_text self \<noteq> [] then self\<lparr>partial_text := []\<rparr> else self);
          (sentences, remaining) = split_into_sentences text';
          self2 = (if sentences \<noteq> []
                   then self1\<lparr>current_sentences := current_sentences self1 @ sentences\<rparr>
                   else self1)
      in if remaining \<noteq> [] then self2\<lparr>partial_text := remaining\<rparr> else self2)"

definition should_process :: "transcript_buffer \<Rightarrow> bool" where
  "should_process self =
     (if int (length (current_sentences self)) \<ge> TARGET_SENTENCES self then True
      else if int (length (current_sentences self)) \<ge> MAX_SENTENCES self then True
      else False)"

definition arm_timer :: "transcript_buffer \<Rightarrow> transcript_buffer" where
  "arm_timer self =
     (if current_sentences self \<noteq> [] then start_timer (SENTENCE_TIMEOUT self) self
      else if partial_text self \<noteq> [] then start_timer (PARTIAL_TIMEOUT self) self
      else self)"

definition add_text :: "transcript_buffer \<Rightarrow> ustr \<Rightarrow> batch option \<times> transcript_buffer" where
  "add_text self text =
     (if text = [] \<or> strip text = [] then (None, self)
      else
        let self1 = accumulate (cancel_timer self) (strip text)
        in if should_process self1 then process_sentences self1
           else (None, arm_timer self1))"

text \<open>The scenario text of the specification: a greeting of eight words.\<close>

definition scenario_text :: ustr where
  "scenario_text =
     [50504, 45397, 54616, 49464, 50836, 32, 48152, 44049, 49845, 45768, 45796, 32, 51200,
      45716, 32, 48156, 54364, 47484, 32, 49884, 51089, 54633, 45768, 45796, 32, 50724, 45720,
      32, 45216, 50472, 44032, 32, 51339, 49845, 45768, 45796]"

text \<open>What happens to a buffer: text arrives, or the timer at position \<open>i\<close> of the
  store runs out. A timer that was cancelled or has already fired does nothing.\<close>

datatype buffer_event = AddText ustr | TimerFires nat

fun buffer_step :: "transcript_buffer \<Rightarrow> buffer_event \<Rightarrow> batch option \<times> transcript_buffer" where
  "buffer_step self (AddText text) = add_text self text"
| "buffer_step self (TimerFires i) =
     (if i < length (timers self) \<and> status (timers self ! i) = Started
      then timeout_flush (self\<lparr>timers := (timers self)[i := (timers self ! i)\<lparr>status := Fired\<rparr>]\<rparr>)
      else (None, self))"



text \<open>A timer of the store is active when it was started and has neither been
  cancelled nor fired.\<close>

definition active :: "transcript_buffer \<Rightarrow> nat \<Rightarrow> bool" where
  "active self i \<longleftrightarrow> i < length (timers self) \<and> status (timers self ! i) = Started"


text \<open>The whitespace-delimited tokens held by the buffer, sentences first.\<close>

definition tokens_of :: "transcript_buffer \<Rightarrow> ustr list" where
  "tokens_of self = concat (map split_ws (current_sentences self)) @ split_ws (partial_text self)"




text \<open>A phrase is a non-empty text in which single spaces separate the tokens: the
  form of every sentence and remainder that segmentation produces. \<open>spaced\<close> is the
  form of \<open>current\<close> inside the loop, each word followed by a space.\<close>

definition phrase :: "ustr \<Rightarrow> bool" where
  "phrase s \<longleftrightarrow> s \<noteq> [] \<and> s = join [SP] (split_ws s)"


text \<open>A buffer whose sentences and partial text are phrases.\<close>

definition phrased :: "transcript_buffer \<Rightarrow> bool" where
  "phrased self \<longleftrightarrow>
     (\<forall>s \<in> set (current_sentences self). phrase s) \<and>
     (partial_text self = [] \<or> phrase (partial_text self))"

text \<open>The flush decision as the specification words it for \<open>TARGET \<le> MAX\<close>: one test
  against the target. \<open>add_text_target_only\<close> is \<open>add_text\<close> with the \<open>elif\<close> branch
  removed.\<close>

definition should_process_target_only :: "transcript_buffer \<Rightarrow> bool" where
  "should_process_target_only self \<longleftrightarrow>
     int (length (current_sentences self)) \<ge> TARGET_SENTENCES self"

definition add_text_target_only ::
  "transcript_buffer \<Rightarrow> ustr \<Rightarrow> batch option \<times> transcript_buffer" where
  "add_text_target_only self text =
     (if text = [] \<or> strip text = [] then (None, self)
      else
        let self1 = accumulate (cancel_timer self) (strip text)
        in if should_process_target_only self1 then process_sentences self1
           else (None, arm_timer self1))"

section \<open>The recognition client (rtzr_client.py)\<close>

type_synonym bytes = "8 word list"

text \<open>
  The fields of \<open>RTZRWebSocketClient\<close> that the operations below read or write.
  \<open>token\<close> is \<open>_token\<close> (access token and \<open>expire_at\<close>), \<open>ws\<close> the socket handle,
  \<open>audio_queue\<close> the contents of the FIFO \<open>Queue\<close> (head first), \<open>on_transcript\<close>
  whether a callback is registered.
\<close>

record rtzr_client =
  token :: "(ustr \<times> real) option"
  ws :: "nat option"
  audio_queue :: "bytes list"
  is_running :: bool
  on_transcript :: bool
  connection_ready :: bool
  pending_audio :: "bytes list"

text \<open>\<open>RTZRWebSocketClient.__init__\<close>\<close>

definition new_client :: rtzr_client where
  "new_client =
     \<lparr>token = None, ws = None, audio_queue = [], is_running = False, on_transcript = False,
      connection_ready = False, pending_audio = []\<rparr>"

text \<open>\<open>Queue.put\<close>\<close>

definition put :: "'a list \<Rightarrow> 'a \<Rightarrow> 'a list" where
  "put q x = q @ [x]"

text \<open>
  What the token endpoint does when asked: the POST raises (endpoint unreachable), or it
  answers with a status code and a body; the body is the \<open>access_token\<close> entry of the
  JSON document, or \<open>None\<close> when reading it raises (no JSON, no such key).
\<close>

datatype token_reply = PostRaises | Reply nat "ustr option"

text \<open>\<open>get_token\<close>, with the clock reading \<open>now\<close> and the endpoint's answer.\<close>

definition get_token :: "rtzr_client \<Rightarrow> real \<Rightarrow> token_reply \<Rightarrow> ustr option \<times> rtzr_client" where
  "get_token self now reply =
     (let stale = (case token self of None \<Rightarrow> True | Some (_, expire_at) \<Rightarrow> expire_at < now)
      in if stale then
           (case reply of
              PostRaises \<Rightarrow> (None, self)
            | Reply status_code body \<Rightarrow>
                if status_code \<noteq> 200 then (None, self)
                else (case body of
                        None \<Rightarrow> (None, self)
                      | Some access_token \<Rightarrow>
                          (Some access_token, self\<lparr>token := Some (access_token, now + 86400)\<rparr>)))
         else (case token self of
                 Some (access_token, _) \<Rightarrow> (Some access_token, self)
               | None \<Rightarrow> (None, self)))"

text \<open>
  \<open>connect_websocket\<close> is a coroutine; it is modelled by the pieces between its
  suspension points. \<open>connect_begin\<close> runs up to the handshake: it either returns
  (\<open>Returned\<close>: no token, or the handshake raised and the \<open>except\<close>/\<open>finally\<close>
  blocks ran) or holds an open socket (\<open>Opened\<close>) and sleeps.
\<close>

datatype handshake = HandshakeRaises | Connected nat

datatype connect_state = Returned | Opened

definition connect_begin ::
  "rtzr_client \<Rightarrow> real \<Rightarrow> token_reply \<Rightarrow> handshake \<Rightarrow> connect_state \<times> rtzr_client" where
  "connect_begin self now reply hs =
     (let self1 = self\<lparr>on_transcript := True\<rparr>;
          (tok, self2) = get_token self1 now reply
      in if tok = None \<or> tok = Some [] then (Returned, self2)
         else (case hs of
                 HandshakeRaises \<Rightarrow> (Returned, self2\<lparr>is_running := False, connection_ready := False\<rparr>)
               | Connected sock \<Rightarrow> (Opened, self2\<lparr>ws := Some sock, is_running := True\<rparr>)))"

text \<open>\<open>add_audio\<close>, as one call that nothing interrupts.\<close>

definition add_audio :: "rtzr_client \<Rightarrow> bytes \<Rightarrow> rtzr_client" where
  "add_audio self audio_data =
     (if connection_ready self then self\<lparr>audio_queue := put (audio_queue self) audio_data\<rparr>
      else self\<lparr>pending_audio := pending_audio self @ [audio_data]\<rparr>)"

text \<open>After the sleep, when nothing interrupts: \<open>connection_ready = True\<close>, the loop
  that moves \<open>pending_audio\<close> to the queue, and \<open>pending_audio.clear()\<close>.\<close>

definition connect_ready :: "rtzr_client \<Rightarrow> rtzr_client" where
  "connect_ready self =
     (let self1 = self\<lparr>connection_ready := True\<rparr>
      in if pending_audio self1 \<noteq> []
         then self1\<lparr>audio_queue := fold (\<lambda>audio_data q. put q audio_data) (pending_audio self1)
                                      (audio_queue self1),
                    pending_audio := []\<rparr>
         else self1)"

text \<open>
  The two threads that share a client. \<open>connect_websocket\<close> runs on the thread
  started for the room (\<open>run_async_websocket\<close> in websocket.py), \<open>add_audio\<close> is
  called by the \<open>audio_stream\<close> handler on the server thread, and no lock protects the
  client. The model therefore lets the threads alternate between statements.

  The room thread, from the end of the sleep on: about to set the flag
  (\<open>Connecting\<close>); flag set, about to test \<open>if self.pending_audio\<close> (\<open>FlagSet\<close>);
  inside the \<open>for\<close> loop with the list iterator at position \<open>i\<close> (\<open>Draining i\<close>);
  loop left, about to call \<open>clear()\<close> (\<open>LoopDone\<close>); past the block
  (\<open>Streaming\<close>). The server thread: between calls (\<open>Idle\<close>), or inside
  \<open>add_audio\<close> after the test \<open>if self.connection_ready\<close> with its outcome and the
  frame (\<open>Tested\<close>).
\<close>

datatype room_pc = Connecting | FlagSet | Draining nat | LoopDone | Streaming

datatype server_pc = Idle | Tested bool bytes

record link_state =
  client :: rtzr_client
  room :: room_pc
  server :: server_pc

text \<open>The next statement of the room thread (rtzr_client.py, lines 101 to 108).\<close>

definition room_step :: "link_state \<Rightarrow> link_state" where
  "room_step st =
     (case room st of
        Connecting \<Rightarrow> st\<lparr>client := (client st)\<lparr>connection_ready := True\<rparr>, room := FlagSet\<rparr>
      | FlagSet \<Rightarrow>
          if pending_audio (client st) \<noteq> [] then st\<lparr>room := Draining 0\<rparr>
          else st\<lparr>room := Streaming\<rparr>
      | Draining i \<Rightarrow>
          if i < length (pending_audio (client st))
          then st\<lparr>client := (client st)\<lparr>audio_queue :=
                      put (audio_queue (client st)) (pending_audio (client st) ! i)\<rparr>,
                  room := Draining (Suc i)\<rparr>
          else st\<lparr>room := LoopDone\<rparr>
      | LoopDone \<Rightarrow> st\<lparr>client := (client st)\<lparr>pending_audio := []\<rparr>, room := Streaming\<rparr>
      | Streaming \<Rightarrow> st)"

text \<open>The server thread enters \<open>add_audio(audio_data)\<close> and evaluates the test; a
  call cannot start while another one is open.\<close>

definition call_add_audio :: "link_state \<Rightarrow> bytes \<Rightarrow> link_state" where
  "call_add_audio st audio_data =
     (case server st of
        Idle \<Rightarrow> st\<lparr>server := Tested (connection_ready (client st)) audio_data\<rparr>
      | Tested _ _ \<Rightarrow> st)"

text \<open>The server thread executes the branch that the test chose and returns.\<close>

definition finish_add_audio :: "link_state \<Rightarrow> link_state" where
  "finish_add_audio st =
     (case server st of
        Idle \<Rightarrow> st
      | Tested ready audio_data \<Rightarrow>
          if ready
          then st\<lparr>client := (client st)\<lparr>audio_queue := put (audio_queue (client st)) audio_data\<rparr>,
                  server := Idle\<rparr>
          else st\<lparr>client := (client st)\<lparr>pending_audio :=
                      pending_audio (client st) @ [audio_data]\<rparr>,
                  server := Idle\<rparr>)"

text \<open>A schedule says which thread executes its next statement.\<close>

datatype thread_event = RoomStep | Call bytes | Finish

fun thread_step :: "link_state \<Rightarrow> thread_event \<Rightarrow> link_state" where
  "thread_step st RoomStep = room_step st"
| "thread_step st (Call audio_data) = call_add_audio st audio_data"
| "thread_step st Finish = finish_add_audio st"

definition thread_run :: "rtzr_client \<Rightarrow> thread_event list \<Rightarrow> link_state" where
  "thread_run self evs = foldl thread_step \<lparr>client = self, room = Connecting, server = Idle\<rparr> evs"

text \<open>
  A decoded inbound message, as the wire contract gives it: the \<open>alternatives\<close> list
  (each alternative is its \<open>text\<close> entry, \<open>None\<close> when the key is absent), the \<open>final\<close>
  flag and the \<open>error\<close> entry; \<open>None\<close> stands for an absent key.
\<close>

record message =
  alternatives :: "ustr option list option"
  final :: "bool option"
  error :: "ustr option"

text \<open>The body of the receive loop for one message: the arguments with which the
  callback is called (none or one). The \<open>error\<close> entry is only logged.\<close>

definition on_message :: "rtzr_client \<Rightarrow> message \<Rightarrow> ustr list" where
  "on_message self data =
     (case alternatives data of
        Some (alt # _) \<Rightarrow>
          (let text = strip (case alt of None \<Rightarrow> [] | Some t \<Rightarrow> t)
           in if text \<noteq> [] \<and> final data = Some True
              then (if on_transcript self then [text] else [])
              else [])
      | _ \<Rightarrow> [])"

text \<open>What \<open>await self.ws.recv()\<close> gives: a message of the shape above; a frame whose
  decoding or handling raises inside the loop body (not a JSON document, or a document
  of another shape, such as a \<open>text\<close> entry that is \<open>null\<close>); or one of the two
  exceptions of \<open>recv\<close> itself.\<close>

datatype received = Message message | BadMessage | ConnectionClosed | RecvRaises

text \<open>\<open>receive_messages\<close> over what the socket delivers: the callback calls, in
  order, and the client afterwards. The loop condition is tested before every
  \<open>recv\<close>; when it holds and the input is used up, the loop is suspended in
  \<open>recv\<close>. When the condition fails, or an exception is caught, the loop ends and
  the \<open>finally\<close> block clears \<open>is_running\<close>.\<close>

fun receive_messages :: "rtzr_client \<Rightarrow> received list \<Rightarrow> ustr list \<times> rtzr_client" where
  "receive_messages self [] =
     (if is_running self \<and> ws self \<noteq> None then ([], self)
      else ([], self\<lparr>is_running := False\<rparr>))"
| "receive_messages self (ev # evs) =
     (if is_running self \<and> ws self \<noteq> None then
        (case ev of
           Message data \<Rightarrow>
             (case receive_messages self evs of
                (calls, self1) \<Rightarrow> (on_message self data @ calls, self1))
         | BadMessage \<Rightarrow> ([], self\<lparr>is_running := False\<rparr>)
         | ConnectionClosed \<Rightarrow> ([], self\<lparr>is_running := False\<rparr>)
         | RecvRaises \<Rightarrow> ([], self\<lparr>is_running := False\<rparr>))
      else ([], self\<lparr>is_running := False\<rparr>))"

text \<open>The condition of the specification under which a message reaches the callback,
  and the text it is called with.\<close>

definition triggers :: "message \<Rightarrow> bool" where
  "triggers data \<longleftrightarrow>
     (case alternatives data of
        Some (alt # _) \<Rightarrow> strip (case alt of None \<Rightarrow> [] | Some t \<Rightarrow> t) \<noteq> [] \<and> final data = Some True
      | _ \<Rightarrow> False)"

definition first_text :: "message \<Rightarrow> ustr" where
  "first_text data =
     (case alternatives data of
        Some (Some t # _) \<Rightarrow> strip t
      | _ \<Rightarrow> [])"

section \<open>Unfolding sets for concrete inputs\<close>

lemmas str_defs = is_space_def SP_def strip_def split_ws_def startswith_def endswith_def
lemmas seg_defs = sentence_endings_def particles_def punctuation_def is_sentence_end_def
  split_into_sentences_def Let_def
lemmas fix_defs = fix_text_def special_case_def restore_subject_def phonetic_corrections_def
  text_fixes_def subjects_def verbs_def replace.simps


section \<open>Tokens are preserved by segmentation\<close>

lemma endings_loop_iff:
  "endings_loop endings word rest \<longleftrightarrow>
     (\<exists>ending \<in> set endings. endswith word ending) \<and>
     (case rest of [] \<Rightarrow> True | next_word # _ \<Rightarrow> \<not> list_ex (startswith next_word) particles)"
  by (induction endings) (auto split: list.splits)

lemma is_space_SP [simp]: "is_space SP"
  by (simp add: is_space_def SP_def)

lemma split_scan_space:
  "is_space c \<Longrightarrow> split_scan (a @ c # b) w = split_scan a w @ split_scan b []"
  by (induction a arbitrary: w) auto

lemma split_scan_word:
  "\<forall>c \<in> set v. \<not> is_space c \<Longrightarrow> split_scan (v @ b) w = split_scan b (w @ v)"
  by (induction v arbitrary: w) auto

lemma split_scan_spaces:
  "\<forall>c \<in> set a. is_space c \<Longrightarrow> split_scan (a @ b) [] = split_scan b []"
  by (induction a) auto

lemma split_scan_trailing:
  "\<forall>c \<in> set b. is_space c \<Longrightarrow> split_scan (a @ b) w = split_scan a w"
proof (induction b arbitrary: a)
  case Nil
  then show ?case by simp
next
  case (Cons c b)
  have "split_scan (a @ c # b) w = split_scan a w @ split_scan b []"
    using Cons.prems by (simp add: split_scan_space)
  moreover have "split_scan b [] = []"
    using split_scan_spaces [of b "[]"] Cons.prems by simp
  ultimately show ?case by simp
qed

lemma split_scan_words:
  "(\<forall>c \<in> set w. \<not> is_space c) \<Longrightarrow> v \<in> set (split_scan s w) \<Longrightarrow> is_word v"
proof (induction s arbitrary: w)
  case Nil
  then show ?case by (simp add: is_word_def split: if_splits)
next
  case (Cons c s)
  show ?case
  proof (cases "is_space c")
    case True
    have "v = w \<and> w \<noteq> [] \<or> v \<in> set (split_scan s [])"
      using Cons.prems(2) True by (simp split: if_splits)
    then show ?thesis
      using Cons.IH [of "[]"] Cons.prems(1) by (auto simp: is_word_def)
  next
    case False
    then have "v \<in> set (split_scan s (w @ [c]))"
      using Cons.prems(2) by simp
    moreover have "\<forall>d \<in> set (w @ [c]). \<not> is_space d"
      using Cons.prems(1) False by simp
    ultimately show ?thesis by (rule Cons.IH [rotated])
  qed
qed

lemma split_ws_words: "v \<in> set (split_ws s) \<Longrightarrow> is_word v"
  using split_scan_words [of "[]" v s] by (simp add: split_ws_def)

lemma split_ws_Nil [simp]: "split_ws [] = []"
  by (simp add: split_ws_def)

lemma split_ws_word: "is_word w \<Longrightarrow> split_ws w = [w]"
  using split_scan_word [of w "[]" "[]"] by (simp add: split_ws_def is_word_def)

lemma split_ws_sep:
  "is_space c \<Longrightarrow> split_ws (a @ c # b) = split_ws a @ split_ws b"
  by (simp add: split_ws_def split_scan_space)

lemma strip_decomp:
  "\<exists>a b. s = a @ strip s @ b \<and> (\<forall>c \<in> set a. is_space c) \<and> (\<forall>c \<in> set b. is_space c)"
proof -
  let ?a = "takeWhile is_space s"
  let ?d = "dropWhile is_space s"
  let ?b = "rev (takeWhile is_space (rev ?d))"
  have "strip s @ ?b = rev (takeWhile is_space (rev ?d) @ dropWhile is_space (rev ?d))"
    unfolding strip_def by (simp only: rev_append)
  also have "\<dots> = ?d"
    by (simp only: takeWhile_dropWhile_id rev_rev_ident)
  finally have d: "?d = strip s @ ?b" by (rule sym)
  have "s = ?a @ ?d" by simp
  with d have "s = ?a @ strip s @ ?b" by simp
  moreover have "\<forall>c \<in> set ?a. is_space c"
    using set_takeWhileD by fastforce
  moreover have "\<forall>c \<in> set ?b. is_space c"
    using set_takeWhileD by fastforce
  ultimately show ?thesis by blast
qed

lemma split_ws_strip [simp]: "split_ws (strip s) = split_ws s"
proof -
  obtain a b where s: "s = a @ strip s @ b"
    and a: "\<forall>c \<in> set a. is_space c" and b: "\<forall>c \<in> set b. is_space c"
    using strip_decomp by blast
  have "split_scan (a @ (strip s @ b)) [] = split_scan (strip s @ b) []"
    using a by (rule split_scan_spaces)
  also have "\<dots> = split_scan (strip s) []"
    using b by (rule split_scan_trailing)
  finally show ?thesis
    using s by (simp add: split_ws_def)
qed

lemma split_ws_open_word:
  assumes "open_current cur" and "is_word w"
  shows "split_ws (cur @ w) = split_ws cur @ [w]"
proof (cases "cur = []")
  case True
  then show ?thesis using assms by (simp add: split_ws_word)
next
  case False
  then obtain a c where cur: "cur = a @ [c]" and c: "is_space c"
    using assms(1) by (metis open_current_def append_butlast_last_id)
  have "split_ws (a @ c # w) = split_ws a @ split_ws w"
    using c by (rule split_ws_sep)
  moreover have "split_ws (a @ [c]) = split_ws a"
    using split_ws_sep [OF c, of a "[]"] by simp
  ultimately show ?thesis using cur assms(2) by (simp add: split_ws_word)
qed

lemma split_ws_snoc_SP: "split_ws (s @ [SP]) = split_ws s"
  using split_ws_sep [of SP s "[]"] by simp

lemma split_loop_words:
  assumes "\<forall>w \<in> set wds. is_word w" and "open_current cur"
    and "split_loop wds S cur = (S', cur')"
  shows "concat (map split_ws S') @ split_ws cur' = concat (map split_ws S) @ split_ws cur @ wds"
  using assms
proof (induction wds arbitrary: S cur)
  case Nil
  then show ?case by simp
next
  case (Cons w wds)
  have tw: "is_word w" and tws: "\<forall>v \<in> set wds. is_word v"
    using Cons.prems(1) by simp_all
  have step: "split_ws (cur @ w) = split_ws cur @ [w]"
    using Cons.prems(2) tw by (rule split_ws_open_word)
  have ne: "cur @ w \<noteq> []"
    using tw by (simp add: is_word_def)
  show ?case
  proof (cases "is_sentence_end w wds")
    case True
    then have "split_loop wds (S @ [strip (cur @ w)]) [] = (S', cur')"
      using Cons.prems(3) by (simp add: Let_def)
    from Cons.IH [OF tws _ this] show ?thesis
      by (simp add: open_current_def step)
  next
    case False
    then have "split_loop wds S (cur @ w @ [SP]) = (S', cur')"
      using Cons.prems(3) ne by (simp add: Let_def)
    from Cons.IH [OF tws _ this] show ?thesis
      using split_ws_snoc_SP [of "cur @ w"] by (simp add: open_current_def step)
  qed
qed

lemma split_sentences_tokens:
  "concat (map split_ws (fst (split_into_sentences text))) @
     split_ws (snd (split_into_sentences text)) = split_ws text"
proof -
  obtain S cur where loop: "split_loop (split_ws text) [] [] = (S, cur)"
    by (cases "split_loop (split_ws text) [] []")
  have "concat (map split_ws S) @ split_ws cur = split_ws text"
    using split_loop_words [OF _ _ loop]
    by (simp add: split_ws_words open_current_def)
  then show ?thesis
    using loop by (cases "cur = []") (simp_all add: split_into_sentences_def)
qed

text \<open>
  C9. \<open>_split_into_sentences\<close> is a total function (the only indexed read,
  \<open>words[i + 1]\<close>, is guarded) and its result partitions the whitespace-delimited tokens
  of the input: the tokens of all sentences, in order, followed by the tokens of the
  remainder are exactly the tokens of the input.
\<close>

theorem split_into_sentences_partition:
  "concat (map split_ws (fst (split_into_sentences text))) @
     split_ws (snd (split_into_sentences text)) = split_ws text"
  by (rule split_sentences_tokens)

theorem split_into_sentences_partition_witness:
  "concat (map split_ws (fst (split_into_sentences scenario_text))) @
     split_ws (snd (split_into_sentences scenario_text)) =
   [[50504, 45397, 54616, 49464, 50836], [48152, 44049, 49845, 45768, 45796], [51200, 45716],
    [48156, 54364, 47484], [49884, 51089, 54633, 45768, 45796], [50724, 45720],
    [45216, 50472, 44032], [51339, 49845, 45768, 45796]]"
  using split_into_sentences_partition [of scenario_text]
  by (simp add: scenario_text_def split_ws_def is_space_def)

section \<open>The flush decision\<close>

lemma strip_Nil [simp]: "strip [] = []"
  by (simp add: strip_def)

lemma split_scan_Nil_iff:
  "split_scan s w = [] \<longleftrightarrow> w = [] \<and> (\<forall>c \<in> set s. is_space c)"
  by (induction s arbitrary: w) auto

lemma strip_Nil_iff: "strip s = [] \<longleftrightarrow> (\<forall>c \<in> set s. is_space c)"
proof (cases "dropWhile is_space s")
  case Nil
  have "strip s = []"
    by (simp add: strip_def Nil)
  moreover have "\<forall>c \<in> set s. is_space c"
    using Nil by (simp add: dropWhile_eq_Nil_conv)
  ultimately show ?thesis by simp
next
  case (Cons x xs)
  then have "\<not> is_space x"
    using hd_dropWhile [of is_space s] by simp
  moreover have "x \<in> set s"
    using Cons set_dropWhileD [of x is_space s] by simp
  moreover have "x \<in> set (dropWhile is_space s)"
    using Cons by simp
  ultimately show ?thesis
    by (auto simp: strip_def dropWhile_eq_Nil_conv)
qed

lemma split_ws_nonblank: "strip s \<noteq> [] \<Longrightarrow> split_ws s \<noteq> []"
  by (simp add: split_ws_def split_scan_Nil_iff strip_Nil_iff)

lemma split_ws_blank: "strip s = [] \<Longrightarrow> split_ws s = []"
  by (simp add: split_ws_def split_scan_Nil_iff strip_Nil_iff)




lemma accumulate_other:
  "context_history (accumulate self t) = context_history self"
  "timer (accumulate self t) = timer self"
  "timers (accumulate self t) = timers self"
  "TARGET_SENTENCES (accumulate self t) = TARGET_SENTENCES self"
  "MAX_SENTENCES (accumulate self t) = MAX_SENTENCES self"
  "PARTIAL_TIMEOUT (accumulate self t) = PARTIAL_TIMEOUT self"
  "SENTENCE_TIMEOUT (accumulate self t) = SENTENCE_TIMEOUT self"
  by (simp_all add: accumulate_def Let_def split: prod.splits)

lemma cancel_timer_other:
  "current_sentences (cancel_timer self) = current_sentences self"
  "partial_text (cancel_timer self) = partial_text self"
  "context_history (cancel_timer self) = context_history self"
  "timer (cancel_timer self) = None"
  "TARGET_SENTENCES (cancel_timer self) = TARGET_SENTENCES self"
  "MAX_SENTENCES (cancel_timer self) = MAX_SENTENCES self"
  "PARTIAL_TIMEOUT (cancel_timer self) = PARTIAL_TIMEOUT self"
  "SENTENCE_TIMEOUT (cancel_timer self) = SENTENCE_TIMEOUT self"
  by (simp_all add: cancel_timer_def split: option.splits)

lemma combined_text_cancel [simp]:
  "combined_text (cancel_timer self) t = combined_text self t"
  by (simp add: combined_text_def cancel_timer_other)



lemma process_sentences_timers:
  "timers (snd (process_sentences self)) = timers self"
  "timer (snd (process_sentences self)) = timer self"
  by (simp_all add: process_sentences_def Let_def)

lemma strip_strip [simp]: "strip (strip s) \<noteq> [] \<longleftrightarrow> strip s \<noteq> []"
  using split_ws_strip [of s] split_ws_nonblank [of "strip s"] split_ws_blank [of "strip s"]
    split_ws_nonblank [of s] split_ws_blank [of s] by (metis strip_Nil_iff list.set(1) empty_iff)




text \<open>
  C10. Whenever \<open>TARGET_SENTENCES \<le> MAX_SENTENCES\<close> (as with the defaults 4 and 5), the
  \<open>elif\<close> branch against \<open>MAX_SENTENCES\<close> never decides: \<open>add_text\<close> with that
  branch removed returns the same result and the same buffer on every input and state.
\<close>

theorem max_branch_redundant:
  assumes "TARGET_SENTENCES self \<le> MAX_SENTENCES self"
  shows "add_text_target_only self text = add_text self text"
proof -
  let ?s1 = "accumulate (cancel_timer self) (strip text)"
  have "should_process ?s1 = should_process_target_only ?s1"
    using assms
    by (auto simp: should_process_def should_process_target_only_def accumulate_other
        cancel_timer_other)
  then show ?thesis
    by (simp add: add_text_def add_text_target_only_def Let_def)
qed

theorem max_branch_redundant_witness:
  "TARGET_SENTENCES new_buffer \<le> MAX_SENTENCES new_buffer \<and>
   add_text_target_only new_buffer [104, 105, 46] = add_text new_buffer [104, 105, 46]"
  using max_branch_redundant [of new_buffer "[104, 105, 46]"]
  by (simp add: new_buffer_def)

section \<open>The flush\<close>

text \<open>
  C4. A flush, inline or from the timer, with a complete sentence or a partial text
  outstanding produces a batch whose context is the space-join of the last three
  entries of \<open>context_history\<close> as they were before the flush, and whose text is
  \<open>fix_text\<close> applied to the space-join of \<open>current_sentences\<close> followed by
  \<open>partial_text\<close> if that is non-empty. The text is the corrected join, not the join
  itself: the counterexample below is a flush whose text differs from the join.
\<close>

theorem flush_batch_text:
  assumes "current_sentences self \<noteq> [] \<or> partial_text self \<noteq> []"
  shows "fst (process_sentences self) =
           Some \<lparr>korean_processed =
                   fix_text
                     (join [SP] (current_sentences self @
                        (if partial_text self \<noteq> [] then [partial_text self] else [])))
                     (join [SP] (last3 (context_history self))),
                 context_hint = join [SP] (last3 (context_history self))\<rparr> \<and>
         timeout_flush self = process_sentences self"
  using assms
  by (auto simp: process_sentences_def timeout_flush_def sentences_to_process_def Let_def last3_def)

theorem flush_batch_text_witness:
  "current_sentences (new_buffer\<lparr>current_sentences := [[104, 105, 46]], partial_text := [111, 107],
       context_history := [[97], [98], [99], [100]]\<rparr>) \<noteq> [] \<and>
   fst (process_sentences (new_buffer\<lparr>current_sentences := [[104, 105, 46]],
       partial_text := [111, 107], context_history := [[97], [98], [99], [100]]\<rparr>)) =
     Some \<lparr>korean_processed = [104, 105, 46, 32, 111, 107],
           context_hint = [98, 32, 99, 32, 100]\<rparr>"
proof -
  have f: "fix_text [104, 105, 46, 32, 111, 107] [98, 32, 99, 32, 100] =
      [104, 105, 46, 32, 111, 107]"
    by (simp add: fix_defs str_defs)
  from flush_batch_text [of "new_buffer\<lparr>current_sentences := [[104, 105, 46]],
       partial_text := [111, 107], context_history := [[97], [98], [99], [100]]\<rparr>"]
  show ?thesis
    by (simp add: last3_def SP_def f)
qed

lemma seongsim_split: "split_into_sentences [49457, 49900] = ([[49457, 49900]], [])"
  by (simp add: seg_defs str_defs)

lemma seongsim_fix: "fix_text [49457, 49900] [] = [49457, 49888]"
  by (simp add: fix_defs str_defs)

lemma seongsim_buffer:
  "add_text new_buffer [49457, 49900] =
     (None, new_buffer\<lparr>current_sentences := [[49457, 49900]], timer := Some 0,
        timers := [\<lparr>interval = 4, status = Started\<rparr>]\<rparr>)"
proof -
  have "strip [49457, 49900] = [49457, 49900]"
    by (simp add: str_defs)
  then show ?thesis
    by (simp add: add_text_def cancel_timer_def accumulate_def combined_text_def
        should_process_def arm_timer_def start_timer_def seongsim_split new_buffer_def)
qed

theorem flush_text_counterexample:
  "current_sentences (snd (add_text new_buffer [49457, 49900])) = [[49457, 49900]] \<and>
   partial_text (snd (add_text new_buffer [49457, 49900])) = [] \<and>
   fst (buffer_step (snd (add_text new_buffer [49457, 49900])) (TimerFires 0)) =
     Some \<lparr>korean_processed = [49457, 49888], context_hint = []\<rparr> \<and>
   join [SP] (current_sentences (snd (add_text new_buffer [49457, 49900]))) = [49457, 49900] \<and>
   fst (buffer_step (snd (add_text new_buffer [49457, 49900])) (TimerFires 0)) \<noteq>
     Some \<lparr>korean_processed =
             join [SP] (current_sentences (snd (add_text new_buffer [49457, 49900]))),
           context_hint = []\<rparr>"
  unfolding seongsim_buffer
  by (simp add: new_buffer_def timeout_flush_def process_sentences_def
      sentences_to_process_def seongsim_fix Let_def)
section \<open>The context history\<close>



















section \<open>The deferred-flush timer\<close>

lemma cancel_length [simp]: "length (cancel i ts) = length ts"
  by (simp add: cancel_def)

lemma cancel_timer_length [simp]: "length (timers (cancel_timer self)) = length (timers self)"
  by (simp add: cancel_timer_def split: option.splits)



lemma active_process_sentences [simp]:
  "active (snd (process_sentences self)) i = active self i"
  by (simp add: active_def process_sentences_timers)

lemma active_accumulate [simp]: "active (accumulate self t) i = active self i"
  by (simp add: active_def accumulate_other)

















section \<open>Fragments one by one and at once\<close>



lemma tokens_of_timers [simp]:
  "tokens_of (cancel_timer self) = tokens_of self"
  "tokens_of (start_timer x self) = tokens_of self"
  by (simp_all add: tokens_of_def cancel_timer_other start_timer_def)





















lemma phrased_timers [simp]:
  "phrased (cancel_timer self) = phrased self"
  "phrased (start_timer x self) = phrased self"
  by (simp_all add: phrased_def cancel_timer_other start_timer_def)











section \<open>The audio path and the receive loop\<close>

lemma fold_put: "fold (\<lambda>x q. put q x) xs q = q @ xs"
  by (induction xs arbitrary: q) (simp_all add: put_def)

lemma connect_ready_queue:
  "audio_queue (connect_ready self) = audio_queue self @ pending_audio self"
  by (simp add: connect_ready_def Let_def fold_put)

lemma connect_ready_pending: "pending_audio (connect_ready self) = []"
  by (simp add: connect_ready_def Let_def)

lemma connect_ready_ready: "connection_ready (connect_ready self)"
  by (simp add: connect_ready_def Let_def)

lemma add_audio_not_ready:
  "\<not> connection_ready self \<Longrightarrow>
     foldl add_audio self frames =
       self\<lparr>pending_audio := pending_audio self @ frames\<rparr>"
  by (induction frames arbitrary: self) (simp_all add: add_audio_def)

lemma add_audio_ready:
  "connection_ready self \<Longrightarrow>
     foldl add_audio self frames =
       self\<lparr>audio_queue := audio_queue self @ frames\<rparr>"
  by (induction frames arbitrary: self) (simp_all add: add_audio_def put_def)

lemma drain_loop:
  "i \<le> length (pending_audio c) \<Longrightarrow>
     (room_step ^^ (length (pending_audio c) - i)) \<lparr>client = c, room = Draining i, server = sv\<rparr> =
       \<lparr>client = c\<lparr>audio_queue := audio_queue c @ drop i (pending_audio c)\<rparr>,
        room = Draining (length (pending_audio c)), server = sv\<rparr>"
proof (induction "length (pending_audio c) - i" arbitrary: i c)
  case 0
  then show ?case by simp
next
  case (Suc n)
  let ?c1 = "c\<lparr>audio_queue := put (audio_queue c) (pending_audio c ! i)\<rparr>"
  have lt: "i < length (pending_audio c)" using Suc.hyps(2) by simp
  have n: "n = length (pending_audio ?c1) - Suc i" using Suc.hyps(2) by simp
  have le: "Suc i \<le> length (pending_audio ?c1)" using lt by simp
  have one: "room_step \<lparr>client = c, room = Draining i, server = sv\<rparr> =
      \<lparr>client = ?c1, room = Draining (Suc i), server = sv\<rparr>"
    using lt by (simp add: room_step_def)
  have "(room_step ^^ Suc n) \<lparr>client = c, room = Draining i, server = sv\<rparr> =
      (room_step ^^ n) \<lparr>client = ?c1, room = Draining (Suc i), server = sv\<rparr>"
    by (simp add: funpow_swap1 one)
  also have "\<dots> = \<lparr>client = ?c1\<lparr>audio_queue := audio_queue ?c1 @ drop (Suc i) (pending_audio ?c1)\<rparr>,
        room = Draining (length (pending_audio ?c1)), server = sv\<rparr>"
    using Suc.hyps(1) [OF n le] n by simp
  also have "\<dots> = \<lparr>client = c\<lparr>audio_queue := audio_queue c @ drop i (pending_audio c)\<rparr>,
        room = Draining (length (pending_audio c)), server = sv\<rparr>"
    using lt by (simp add: put_def Cons_nth_drop_Suc)
  finally show ?case using Suc.hyps(2) by simp
qed

lemma room_uninterrupted:
  "(room_step ^^ (length (pending_audio c) + 4)) \<lparr>client = c, room = Connecting, server = sv\<rparr> =
     \<lparr>client = connect_ready c, room = Streaming, server = sv\<rparr>"
proof (cases "pending_audio c = []")
  case True
  then show ?thesis
    by (simp add: numeral_eq_Suc funpow_swap1 room_step_def connect_ready_def)
next
  case False
  let ?c1 = "c\<lparr>connection_ready := True\<rparr>"
  let ?n = "length (pending_audio c)"
  have s2: "(room_step ^^ 2) \<lparr>client = c, room = Connecting, server = sv\<rparr> =
      \<lparr>client = ?c1, room = Draining 0, server = sv\<rparr>"
    using False by (simp add: numeral_eq_Suc room_step_def)
  have loop: "(room_step ^^ ?n) \<lparr>client = ?c1, room = Draining 0, server = sv\<rparr> =
      \<lparr>client = ?c1\<lparr>audio_queue := audio_queue c @ pending_audio c\<rparr>,
       room = Draining ?n, server = sv\<rparr>"
    using drain_loop [of 0 ?c1 sv] by simp
  have e2: "(room_step ^^ 2) \<lparr>client = ?c1\<lparr>audio_queue := audio_queue c @ pending_audio c\<rparr>,
       room = Draining ?n, server = sv\<rparr> =
      \<lparr>client = connect_ready c, room = Streaming, server = sv\<rparr>"
    using False by (simp add: numeral_eq_Suc room_step_def connect_ready_def fold_put)
  have "?n + 4 = 2 + (?n + 2)" by simp
  then have "(room_step ^^ (?n + 4)) \<lparr>client = c, room = Connecting, server = sv\<rparr> =
      (room_step ^^ 2) ((room_step ^^ ?n) ((room_step ^^ 2)
        \<lparr>client = c, room = Connecting, server = sv\<rparr>))"
    by (simp only: funpow_add o_apply)
  then show ?thesis
    by (simp only: s2 loop e2)
qed

lemma calls_run:
  "server st = Idle \<Longrightarrow>
     foldl thread_step st (concat (map (\<lambda>f. [Call f, Finish]) frames)) =
       st\<lparr>client := foldl add_audio (client st) frames\<rparr>"
proof (induction frames arbitrary: st)
  case Nil
  then show ?case by simp
next
  case (Cons f frames)
  let ?st1 = "st\<lparr>client := add_audio (client st) f\<rparr>"
  have one: "finish_add_audio (call_add_audio st f) = ?st1"
    using Cons.prems
    by (simp add: call_add_audio_def finish_add_audio_def add_audio_def)
  have "server ?st1 = Idle" using Cons.prems by simp
  from Cons.IH [OF this] show ?case
    by (simp add: one)
qed

lemma steps_run: "foldl thread_step st (replicate n RoomStep) = (room_step ^^ n) st"
  by (induction n arbitrary: st) (simp_all add: funpow_swap1)

lemma sequential_order:
  "client (thread_run new_client
     (concat (map (\<lambda>f. [Call f, Finish]) before) @ replicate (length before + 4) RoomStep @
      concat (map (\<lambda>f. [Call f, Finish]) after))) =
   new_client\<lparr>connection_ready := True, audio_queue := before @ after\<rparr>"
proof -
  let ?c1 = "new_client\<lparr>pending_audio := before\<rparr>"
  have a: "foldl thread_step \<lparr>client = new_client, room = Connecting, server = Idle\<rparr>
      (concat (map (\<lambda>f. [Call f, Finish]) before)) =
      \<lparr>client = ?c1, room = Connecting, server = Idle\<rparr>"
    by (simp add: calls_run add_audio_not_ready new_client_def)
  have b: "foldl thread_step \<lparr>client = ?c1, room = Connecting, server = Idle\<rparr>
      (replicate (length before + 4) RoomStep) =
      \<lparr>client = connect_ready ?c1, room = Streaming, server = Idle\<rparr>"
    using room_uninterrupted [of ?c1 Idle] by (simp add: steps_run)
  have r: "connect_ready ?c1 = new_client\<lparr>connection_ready := True, audio_queue := before\<rparr>"
    by (simp add: connect_ready_def Let_def fold_put new_client_def)
  have c: "foldl thread_step
      \<lparr>client = new_client\<lparr>connection_ready := True, audio_queue := before\<rparr>,
       room = Streaming, server = Idle\<rparr>
      (concat (map (\<lambda>f. [Call f, Finish]) after)) =
      \<lparr>client = new_client\<lparr>connection_ready := True, audio_queue := before @ after\<rparr>,
       room = Streaming, server = Idle\<rparr>"
    by (simp add: calls_run add_audio_ready)
  show ?thesis
    by (simp add: thread_run_def a b r c)
qed

text \<open>
  C1. The claim asks that every frame passed to \<open>add_audio\<close> reaches
  \<open>audio_queue\<close> exactly once and in submission order, wherever the link becomes
  ready among the submissions. The code does so when no \<open>add_audio\<close> call overlaps
  the statements that set \<open>connection_ready\<close>, move \<open>pending_audio\<close> and clear it
  (lemma \<open>sequential_order\<close>). But it sets the flag before it moves the pending
  frames, and the two threads take no lock. In the first schedule below frame 3,
  submitted after the flag is set, is queued before frames 1 and 2. In the second,
  frame 1 passes the test before the flag is set and is appended to
  \<open>pending_audio\<close> after the block has been left, where it stays. In the third,
  frame 2 is appended after the loop has ended and is removed by \<open>clear()\<close>.
\<close>

theorem audio_order_broken:
  "audio_queue (client (thread_run new_client
     [Call [1], Finish, Call [2], Finish, RoomStep, Call [3], Finish,
      RoomStep, RoomStep, RoomStep, RoomStep, RoomStep])) = [[3], [1], [2]] \<and>
   pending_audio (client (thread_run new_client [Call [1], RoomStep, RoomStep, Finish])) = [[1]] \<and>
   audio_queue (client (thread_run new_client [Call [1], RoomStep, RoomStep, Finish])) = [] \<and>
   room (thread_run new_client [Call [1], RoomStep, RoomStep, Finish]) = Streaming \<and>
   audio_queue (client (thread_run new_client
     [Call [1], Finish, Call [2], RoomStep, RoomStep, RoomStep, RoomStep, Finish, RoomStep]))
     = [[1]] \<and>
   pending_audio (client (thread_run new_client
     [Call [1], Finish, Call [2], RoomStep, RoomStep, RoomStep, RoomStep, Finish, RoomStep]))
     = []"
  by (simp add: thread_run_def room_step_def call_add_audio_def finish_add_audio_def put_def
      new_client_def)

lemma get_token_None:
  "fst (get_token self now reply) = None \<Longrightarrow> get_token self now reply = (None, self)"
  by (auto simp: get_token_def Let_def split: option.splits token_reply.splits if_splits prod.splits)

text \<open>
  C8. If \<open>get_token\<close> returns \<open>None\<close>, \<open>connect_websocket\<close> returns at once: it
  only registers the callback, opens no socket, does not retry and leaves
  \<open>connection_ready\<close> false. Every frame submitted afterwards is appended to
  \<open>pending_audio\<close> and the outbound queue never receives it.
\<close>

theorem token_failure_is_terminal:
  assumes "fst (get_token (self\<lparr>on_transcript := True\<rparr>) now reply) = None"
    and "\<not> connection_ready self"
  shows "connect_begin self now reply hs = (Returned, self\<lparr>on_transcript := True\<rparr>) \<and>
         (\<forall>frames. foldl add_audio (self\<lparr>on_transcript := True\<rparr>) frames =
            self\<lparr>on_transcript := True, pending_audio := pending_audio self @ frames\<rparr>)"
proof -
  have "get_token (self\<lparr>on_transcript := True\<rparr>) now reply = (None, self\<lparr>on_transcript := True\<rparr>)"
    using assms(1) by (rule get_token_None)
  then have "connect_begin self now reply hs = (Returned, self\<lparr>on_transcript := True\<rparr>)"
    by (simp add: connect_begin_def)
  moreover have "\<forall>frames. foldl add_audio (self\<lparr>on_transcript := True\<rparr>) frames =
            self\<lparr>on_transcript := True, pending_audio := pending_audio self @ frames\<rparr>"
    using assms(2) by (simp add: add_audio_not_ready)
  ultimately show ?thesis by simp
qed

theorem token_failure_is_terminal_witness:
  "fst (get_token (new_client\<lparr>on_transcript := True\<rparr>) 0 (Reply 401 None)) = None \<and>
   \<not> connection_ready new_client \<and>
   connect_begin new_client 0 (Reply 401 None) (Connected 7) =
     (Returned, new_client\<lparr>on_transcript := True\<rparr>) \<and>
   audio_queue (foldl add_audio (new_client\<lparr>on_transcript := True\<rparr>) [[1, 2], [3]]) = []"
proof -
  have h1: "fst (get_token (new_client\<lparr>on_transcript := True\<rparr>) 0 (Reply 401 None)) = None"
    by (simp add: get_token_def new_client_def)
  have h2: "\<not> connection_ready new_client"
    by (simp add: new_client_def)
  from token_failure_is_terminal [OF h1 h2, of "Connected 7"] h1 h2 show ?thesis
    by (simp add: new_client_def add_audio_def)
qed

lemma on_message_triggers:
  "on_transcript self \<Longrightarrow> on_message self data = (if triggers data then [first_text data] else [])"
  by (simp add: on_message_def triggers_def first_text_def Let_def
      split: option.splits list.splits)

text \<open>
  C7. While the receive loop runs with a registered callback, the callback is called
  exactly once for each message whose \<open>alternatives\<close> list is non-empty, whose first
  alternative has non-empty text after trimming and whose \<open>final\<close> flag is set, and
  for no other message; the calls are in the order of receipt. The \<open>error\<close> entry has
  no influence on the call, and the client is unchanged after the messages (in
  particular \<open>is_running\<close> still holds: an error entry does not close the connection).
\<close>

theorem callback_once_per_final_message:
  assumes "is_running self" and "ws self \<noteq> None" and "on_transcript self"
  shows "receive_messages self (map Message msgs) =
           (map first_text (filter triggers msgs), self) \<and>
         (\<forall>data e. triggers (data\<lparr>error := e\<rparr>) = triggers data)"
proof -
  have "receive_messages self (map Message msgs) = (map first_text (filter triggers msgs), self)"
    using assms by (induction msgs) (simp_all add: on_message_triggers)
  moreover have "\<forall>data e. triggers (data\<lparr>error := e\<rparr>) = triggers data"
    by (simp add: triggers_def split: option.splits list.splits)
  ultimately show ?thesis by simp
qed


theorem callback_once_per_final_message_witness:
  "is_running (new_client\<lparr>ws := Some 0, is_running := True, on_transcript := True\<rparr>) \<and>
   ws (new_client\<lparr>ws := Some 0, is_running := True, on_transcript := True\<rparr>) \<noteq> None \<and>
   on_transcript (new_client\<lparr>ws := Some 0, is_running := True, on_transcript := True\<rparr>) \<and>
   receive_messages (new_client\<lparr>ws := Some 0, is_running := True, on_transcript := True\<rparr>)
     (map Message
       [\<lparr>alternatives = Some [Some [32, 104, 105, 32]], final = Some True, error = None\<rparr>,
        \<lparr>alternatives = Some [Some [104, 105]], final = Some False, error = None\<rparr>,
        \<lparr>alternatives = None, final = None, error = Some [101]\<rparr>,
        \<lparr>alternatives = Some [Some [111, 107], Some [120]], final = Some True,
           error = Some [101]\<rparr>]) =
     ([[104, 105], [111, 107]],
      new_client\<lparr>ws := Some 0, is_running := True, on_transcript := True\<rparr>)"
  using callback_once_per_final_message
    [of "new_client\<lparr>ws := Some 0, is_running := True, on_transcript := True\<rparr>"
        "[\<lparr>alternatives = Some [Some [32, 104, 105, 32]], final = Some True, error = None\<rparr>,
          \<lparr>alternatives = Some [Some [104, 105]], final = Some False, error = None\<rparr>,
          \<lparr>alternatives = None, final = None, error = Some [101]\<rparr>,
          \<lparr>alternatives = Some [Some [111, 107], Some [120]], final = Some True,
             error = Some [101]\<rparr>]"]
  by (simp add: new_client_def triggers_def first_text_def strip_def is_space_def)

end
